theory Spec2Isabelle
  imports Complex_Main
begin

section \<open>The benchmark orchestration script \<^verbatim>\<open>performance_test.py\<close>\<close>

text \<open>
  The script drives an external simulation program through two parameter sweeps. Everything
  outside the script (the worker processes, the driver process, the file system, the user at
  the keyboard) is an oracle \<open>env\<close>: the outcome of the \<open>k\<close>-th interaction with the
  outside world is read at index \<open>k\<close>, and the state counts the interactions made so far
  (\<open>clock\<close>). The theorems quantify over every oracle. Python floats are idealised as real
  numbers.
\<close>

subsection \<open>Exceptions\<close>

datatype exn = ValueError | IndexError | OSError | TimeoutExpired | KeyboardInterrupt | SystemExit

text \<open>\<^verbatim>\<open>except Exception\<close> catches everything but \<^verbatim>\<open>KeyboardInterrupt\<close> and
  \<^verbatim>\<open>SystemExit\<close>, which derive from \<^verbatim>\<open>BaseException\<close> only.\<close>

fun is_Exception :: "exn \<Rightarrow> bool" where
  "is_Exception KeyboardInterrupt = False"
| "is_Exception SystemExit = False"
| "is_Exception _ = True"

subsection \<open>Python string operations used by the script\<close>

fun startswith :: "string \<Rightarrow> string \<Rightarrow> bool" where
  "startswith s [] = True"
| "startswith [] (p # ps) = False"
| "startswith (c # cs) (p # ps) = (c = p \<and> startswith cs ps)"

text \<open>\<^verbatim>\<open>sub in s\<close>.\<close>

fun contains :: "string \<Rightarrow> string \<Rightarrow> bool" where
  "contains sub [] = (sub = [])"
| "contains sub (c # cs) = (startswith (c # cs) sub \<or> contains sub cs)"

text \<open>\<^verbatim>\<open>s.split(sep)\<close> for a non-empty separator (the script only splits at the constants
  \<^verbatim>\<open>'\n'\<close> and \<^verbatim>\<open>"Elapsed time:"\<close>): \<open>split_str sep [] s\<close>, where the second
  argument collects the piece being read.\<close>

fun split_str :: "string \<Rightarrow> string \<Rightarrow> string \<Rightarrow> string list" where
  "split_str sep acc [] = [acc]"
| "split_str sep acc (c # cs) =
     (if startswith (c # cs) sep then acc # split_str sep [] (drop (length sep - 1) cs)
      else split_str sep (acc @ [c]) cs)"

text \<open>The ASCII characters for which \<^verbatim>\<open>str.isspace\<close> holds.\<close>

definition py_isspace :: "char \<Rightarrow> bool" where
  "py_isspace c = (let n = (of_char c :: nat) in (9 \<le> n \<and> n \<le> 13) \<or> (28 \<le> n \<and> n \<le> 32))"

definition strip :: "string \<Rightarrow> string" where
  "strip s = rev (dropWhile py_isspace (rev (dropWhile py_isspace s)))"

text \<open>\<^verbatim>\<open>s.split()\<close>: the maximal runs of non-whitespace characters, \<open>split_ws [] s\<close>.\<close>

fun split_ws :: "string \<Rightarrow> string \<Rightarrow> string list" where
  "split_ws acc [] = (if acc = [] then [] else [acc])"
| "split_ws acc (c # cs) =
     (if py_isspace c then (if acc = [] then split_ws [] cs else acc # split_ws [] cs)
      else split_ws (acc @ [c]) cs)"

text \<open>\<^verbatim>\<open>xs[i]\<close> raises \<^verbatim>\<open>IndexError\<close> out of range (only non-negative indices occur).\<close>

definition index :: "'a list \<Rightarrow> nat \<Rightarrow> exn + 'a" where
  "index xs i = (if i < length xs then Inr (xs ! i) else Inl IndexError)"

subsection \<open>\<^verbatim>\<open>float(token)\<close>\<close>

text \<open>
  The built-in \<^verbatim>\<open>float\<close> on a token without whitespace, for the finite decimal literals of
  Python's grammar: an optional sign, digits with an optional fraction (or a fraction alone),
  an optional exponent, underscores allowed between digits. The value is the real number the
  literal denotes (no rounding). The tokens \<^verbatim>\<open>inf\<close>, \<^verbatim>\<open>infinity\<close> and \<^verbatim>\<open>nan\<close>, which
  Python also accepts, denote no real number and are outside this model.
\<close>

definition is_digit :: "char \<Rightarrow> bool" where
  "is_digit c = (let n = (of_char c :: nat) in 48 \<le> n \<and> n \<le> 57)"

definition digit_val :: "char \<Rightarrow> nat" where
  "digit_val c = of_char c - 48"

text \<open>The longest prefix of the form \<^verbatim>\<open>digit (["_"] digit)*\<close>: its digits, and the rest.\<close>

fun digitpart :: "string \<Rightarrow> string \<times> string" where
  "digitpart (c # u # d # cs) =
     (if is_digit c \<and> u = CHR ''_'' \<and> is_digit d
        then (case digitpart (d # cs) of (ds, r) \<Rightarrow> (c # ds, r))
      else if is_digit c
        then (case digitpart (u # d # cs) of (ds, r) \<Rightarrow> (c # ds, r))
      else ([], c # u # d # cs))"
| "digitpart (c # cs) =
     (if is_digit c then (case digitpart cs of (ds, r) \<Rightarrow> (c # ds, r)) else ([], c # cs))"
| "digitpart [] = ([], [])"

definition nat_of_digits :: "string \<Rightarrow> nat" where
  "nat_of_digits ds = foldl (\<lambda>a c. 10 * a + digit_val c) 0 ds"

fun take_sign :: "string \<Rightarrow> bool \<times> string" where
  "take_sign [] = (False, [])"
| "take_sign (c # cs) =
     (if c = CHR ''-'' then (True, cs) else if c = CHR ''+'' then (False, cs)
      else (False, c # cs))"

text \<open>The exponent part, which must reach the end of the token: its value, or \<open>None\<close>.\<close>

definition exponent :: "string \<Rightarrow> int option" where
  "exponent s =
     (case s of
        [] \<Rightarrow> Some 0
      | c # cs \<Rightarrow>
          if c = CHR ''e'' \<or> c = CHR ''E'' then
            (case take_sign cs of (neg, r) \<Rightarrow>
               (case digitpart r of (ds, r') \<Rightarrow>
                  if ds = [] \<or> r' \<noteq> [] then None
                  else Some (if neg then - int (nat_of_digits ds) else int (nat_of_digits ds))))
          else None)"

definition pow10 :: "int \<Rightarrow> real" where
  "pow10 e = (if 0 \<le> e then 10 ^ nat e else 1 / 10 ^ nat (- e))"

definition py_float :: "string \<Rightarrow> exn + real" where
  "py_float tok =
     (case take_sign tok of (neg, r0) \<Rightarrow>
      case digitpart r0 of (ip, r1) \<Rightarrow>
      case (case r1 of [] \<Rightarrow> ([], r1)
                     | c # cs \<Rightarrow> if c = CHR ''.'' then digitpart cs else ([], r1)) of (fp, r2) \<Rightarrow>
        if ip = [] \<and> fp = [] then Inl ValueError
        else (case exponent r2 of
                None \<Rightarrow> Inl ValueError
              | Some e \<Rightarrow>
                  Inr ((if neg then - 1 else 1) * real (nat_of_digits (ip @ fp))
                       * pow10 (e - int (length fp)))))"

subsection \<open>The outside world and the state of a \<^verbatim>\<open>PerformanceTest\<close> object\<close>

text \<open>What \<^verbatim>\<open>subprocess.Popen\<close> of a worker followed by \<^verbatim>\<open>time.sleep(0.5)\<close> and
  \<^verbatim>\<open>worker.poll()\<close> can give: a process that is still running, one that has already exited
  (with its captured output), or an exception from the launch.\<close>

datatype popen_outcome = Running | Exited string string | Popen_raises exn

text \<open>What \<^verbatim>\<open>subprocess.run(cmd, capture_output=True, text=True, timeout=300)\<close> can give: a
  completed process (return code, stdout, stderr) or an exception (\<^verbatim>\<open>TimeoutExpired\<close>, an
  \<^verbatim>\<open>OSError\<close> from the launch, a \<^verbatim>\<open>KeyboardInterrupt\<close> while waiting).\<close>

datatype run_outcome = Completed int string string | Run_raises exn

record env =
  popen :: "nat \<Rightarrow> popen_outcome"
  driver :: "nat \<Rightarrow> run_outcome"
  wait :: "nat \<Rightarrow> bool"  \<comment> \<open>\<^verbatim>\<open>worker.wait(timeout=5)\<close> returns (\<open>False\<close>: \<^verbatim>\<open>TimeoutExpired\<close>)\<close>
  setup_raises :: "exn option"  \<comment> \<open>what \<^verbatim>\<open>setup_environment\<close> raises, if anything\<close>
  fopen :: "nat \<Rightarrow> exn option"  \<comment> \<open>what \<^verbatim>\<open>open(name, 'a')\<close> raises, if anything\<close>

record result =
  test_type :: string
  mode :: string
  particles :: int
  cycles :: int
  run_times :: "real list"
  average_time :: real
  std_dev :: real

text \<open>A cell handed to \<^verbatim>\<open>csv.writer.writerow\<close>; \<open>Absent\<close> is Python's \<^verbatim>\<open>None\<close>.\<close>

datatype cell = Text string | Integer int | Float real | Absent

text \<open>
  The object's attributes are \<open>worker_processes\<close> (\<open>None\<close> while the attribute does not
  exist: \<^verbatim>\<open>__init__\<close> sets \<^verbatim>\<open>worker_process\<close>, another name) and \<open>results\<close>. Worker
  handles are named by the clock value of their launch. \<open>files\<close> holds the rows of each CSV
  file. The other fields record what the script did: \<open>calls\<close> the arguments of every
  \<^verbatim>\<open>run_simulation\<close> call, \<open>launches\<close> every driver launch with the worker list of that
  moment, \<open>started\<close> the workers \<^verbatim>\<open>Popen\<close> returned, \<open>terminated\<close> and \<open>killed\<close> the
  workers that received \<^verbatim>\<open>terminate()\<close> and \<^verbatim>\<open>kill()\<close>.
\<close>

record state =
  worker_processes :: "nat list option"
  results :: "result list"
  files :: "string \<Rightarrow> cell list list"
  clock :: nat
  calls :: "(string \<times> int \<times> int) list"
  launches :: "(string \<times> int \<times> int \<times> nat list option) list"
  started :: "nat list"
  terminated :: "nat list"
  killed :: "nat list"

definition workers :: "state \<Rightarrow> nat list" where
  "workers s = (case worker_processes s of None \<Rightarrow> [] | Some ws \<Rightarrow> ws)"

subsection \<open>\<^verbatim>\<open>start_worker\<close> and \<^verbatim>\<open>stop_worker\<close>\<close>

text \<open>The \<^verbatim>\<open>for i in range(4)\<close> loop of \<^verbatim>\<open>start_worker\<close> with \<open>n\<close> rounds to go, and the
  \<^verbatim>\<open>return True\<close> after it. The two \<^verbatim>\<open>pkill -f "role worker"\<close> calls of the script (their result
  is ignored) run while the handle list is empty and touch no handle of this object; they
  are taken to return and are left out, as are \<^verbatim>\<open>time.sleep\<close> and \<^verbatim>\<open>print\<close>.\<close>

fun start_workers :: "env \<Rightarrow> nat \<Rightarrow> state \<Rightarrow> (exn + bool) \<times> state" where
  "start_workers e 0 s = (Inr True, s)"
| "start_workers e (Suc n) s =
     (case popen e (clock s) of
        Popen_raises x \<Rightarrow> (Inl x, s\<lparr>clock := Suc (clock s)\<rparr>)
      | Running \<Rightarrow>
          start_workers e n
            (s\<lparr>worker_processes := Some (workers s @ [clock s]),
               started := started s @ [clock s], clock := Suc (clock s)\<rparr>)
      | Exited out err \<Rightarrow>
          (Inr False,
           s\<lparr>worker_processes := Some (workers s @ [clock s]),
             started := started s @ [clock s], clock := Suc (clock s)\<rparr>))"

definition start_worker :: "env \<Rightarrow> state \<Rightarrow> (exn + bool) \<times> state" where
  "start_worker e s = start_workers e 4 (s\<lparr>worker_processes := Some []\<rparr>)"

text \<open>The \<^verbatim>\<open>for worker in self.worker_processes\<close> loop of \<^verbatim>\<open>stop_worker\<close>.\<close>

fun stop_workers :: "env \<Rightarrow> nat list \<Rightarrow> state \<Rightarrow> state" where
  "stop_workers e [] s = s"
| "stop_workers e (w # ws) s =
     stop_workers e ws
       (if wait e (clock s)
        then s\<lparr>terminated := terminated s @ [w], clock := Suc (clock s)\<rparr>
        else s\<lparr>terminated := terminated s @ [w], killed := killed s @ [w],
               clock := Suc (clock s)\<rparr>)"

definition stop_worker :: "env \<Rightarrow> state \<Rightarrow> state" where
  "stop_worker e s =
     (case worker_processes s of
        None \<Rightarrow> s
      | Some ws \<Rightarrow> if ws \<noteq> [] then (stop_workers e ws s)\<lparr>worker_processes := Some []\<rparr> else s)"

subsection \<open>\<^verbatim>\<open>run_simulation\<close>\<close>

text \<open>The \<^verbatim>\<open>for line in result.stdout.split('\n')\<close> loop with its \<^verbatim>\<open>return None\<close>.\<close>

fun scan_lines :: "string list \<Rightarrow> exn + real option" where
  "scan_lines [] = Inr None"
| "scan_lines (line # lines) =
     (if contains ''Elapsed time:'' line then
        (case index (split_str ''Elapsed time:'' [] line) 1 of
           Inl x \<Rightarrow> Inl x
         | Inr part \<Rightarrow>
             (case index (split_ws [] (strip part)) 0 of
                Inl x \<Rightarrow> Inl x
              | Inr time_str \<Rightarrow>
                  (case py_float time_str of Inl x \<Rightarrow> Inl x | Inr t \<Rightarrow> Inr (Some t))))
      else scan_lines lines)"

text \<open>The body of the \<^verbatim>\<open>try\<close> block, on the outcome of \<^verbatim>\<open>subprocess.run\<close>.\<close>

definition try_body :: "run_outcome \<Rightarrow> exn + real option" where
  "try_body out =
     (case out of
        Run_raises x \<Rightarrow> Inl x
      | Completed returncode stdout stderr \<Rightarrow>
          if returncode \<noteq> 0 then Inr None else scan_lines (split_str [CHR 0x0A] [] stdout))"

text \<open>The \<^verbatim>\<open>try\<close> statement: \<^verbatim>\<open>except subprocess.TimeoutExpired\<close> and
  \<^verbatim>\<open>except Exception\<close> both return \<^verbatim>\<open>None\<close>; anything else propagates.\<close>

definition run_driver :: "env \<Rightarrow> string \<Rightarrow> int \<Rightarrow> int \<Rightarrow> state \<Rightarrow> (exn + real option) \<times> state" where
  "run_driver e m p c s =
     (let s1 = s\<lparr>launches := launches s @ [(m, p, c, worker_processes s)],
                 clock := Suc (clock s)\<rparr>
      in case try_body (driver e (clock s)) of
           Inr r \<Rightarrow> (Inr r, s1)
         | Inl x \<Rightarrow>
             if x = TimeoutExpired then (Inr None, s1)
             else if is_Exception x then (Inr None, s1)
             else (Inl x, s1))"

definition run_simulation :: "env \<Rightarrow> string \<Rightarrow> int \<Rightarrow> int \<Rightarrow> state \<Rightarrow> (exn + real option) \<times> state" where
  "run_simulation e m p c s0 =
     (let s = s0\<lparr>calls := calls s0 @ [(m, p, c)]\<rparr> in
      if m = ''distributed'' then
        (if worker_processes s = None \<or> workers s = [] then
           (case start_worker e s of
              (Inl x, s1) \<Rightarrow> (Inl x, s1)
            | (Inr ok, s1) \<Rightarrow> if \<not> ok then (Inr None, s1) else run_driver e m p c s1)
         else run_driver e m p c s)
      else run_driver e m p c s)"

subsection \<open>The two sweeps\<close>

text \<open>\<^verbatim>\<open>statistics.mean\<close> and \<^verbatim>\<open>statistics.stdev\<close> (the sample standard deviation) of
  Python's standard library, on the inputs the script gives them: a non-empty list and a list
  of at least two values.\<close>

definition statistics_mean :: "real list \<Rightarrow> real" where
  "statistics_mean xs = sum_list xs / real (length xs)"

definition statistics_stdev :: "real list \<Rightarrow> real" where
  "statistics_stdev xs =
     sqrt (sum_list (map (\<lambda>x. (x - statistics_mean xs)\<^sup>2) xs) / real (length xs - 1))"

text \<open>
  \<^verbatim>\<open>fixed_particles_test\<close> and \<^verbatim>\<open>fixed_cycles_test\<close> are the same text up to the roles of
  particles and cycles, the \<^verbatim>\<open>test_type\<close> tag and the dictionary they read. They are
  embedded as the two instances of one loop: \<open>sweep\<close> says which test runs, \<open>config\<close> is the
  dictionary (\<open>fixed\<close> is \<^verbatim>\<open>"particles"\<close> resp. \<^verbatim>\<open>"cycles"\<close>, \<open>starting\<close> is
  \<^verbatim>\<open>"starting_cycles"\<close> resp. \<^verbatim>\<open>"starting_particles"\<close>, \<open>increment\<close> is
  \<^verbatim>\<open>"cycle_increment"\<close> resp. \<^verbatim>\<open>"particle_increment"\<close>, \<open>maximum\<close> is \<^verbatim>\<open>"max_cycles"\<close>
  resp. \<^verbatim>\<open>"max_particles"\<close>).
\<close>

datatype sweep = Fixed_Particles | Fixed_Cycles

record config =
  fixed :: int
  starting :: int
  increment :: int
  maximum :: int
  runs_per_config :: int
  max_runtime_seconds :: real

definition FIXED_PARTICLES_TEST :: config where
  "FIXED_PARTICLES_TEST =
     \<lparr>fixed = 3000, starting = 500, increment = 500, maximum = 10000,
      runs_per_config = 3, max_runtime_seconds = 180\<rparr>"

definition FIXED_CYCLES_TEST :: config where
  "FIXED_CYCLES_TEST =
     \<lparr>fixed = 10000, starting = 500, increment = 500, maximum = 5000,
      runs_per_config = 3, max_runtime_seconds = 180\<rparr>"

fun tag :: "sweep \<Rightarrow> string" where
  "tag Fixed_Particles = ''Fixed_Particles''"
| "tag Fixed_Cycles = ''Fixed_Cycles''"

text \<open>The particle count and the cycle count at control value \<open>v\<close>.\<close>

fun point :: "sweep \<Rightarrow> config \<Rightarrow> int \<Rightarrow> int \<times> int" where
  "point Fixed_Particles cfg v = (fixed cfg, v)"
| "point Fixed_Cycles cfg v = (v, fixed cfg)"

text \<open>The \<^verbatim>\<open>for run in range(runs)\<close> loop with \<open>n\<close> rounds to go.\<close>

fun repetitions ::
  "env \<Rightarrow> string \<Rightarrow> int \<Rightarrow> int \<Rightarrow> nat \<Rightarrow> real list \<Rightarrow> state \<Rightarrow> (exn + real list) \<times> state" where
  "repetitions e m p c 0 ts s = (Inr ts, s)"
| "repetitions e m p c (Suc n) ts s =
     (case run_simulation e m p c s of
        (Inl x, s1) \<Rightarrow> (Inl x, s1)
      | (Inr None, s1) \<Rightarrow> repetitions e m p c n ts s1
      | (Inr (Some runtime), s1) \<Rightarrow> repetitions e m p c n (ts @ [runtime]) s1)"

text \<open>The summary record built from the successful times of one point.\<close>

definition summary :: "sweep \<Rightarrow> string \<Rightarrow> int \<Rightarrow> int \<Rightarrow> real list \<Rightarrow> result" where
  "summary t m p c ts =
     \<lparr>test_type = tag t, mode = m, particles = p, cycles = c, run_times = ts,
      average_time = statistics_mean ts,
      std_dev = (if length ts > 1 then statistics_stdev ts else 0)\<rparr>"

text \<open>One pass through the body of the \<^verbatim>\<open>while\<close> loop at control value \<open>v\<close>: \<open>Inr True\<close>
  when the pass reaches the increment at its end, \<open>Inr False\<close> when it leaves through
  \<^verbatim>\<open>break\<close>.\<close>

definition sweep_point ::
  "env \<Rightarrow> sweep \<Rightarrow> config \<Rightarrow> string \<Rightarrow> int \<Rightarrow> state \<Rightarrow> (exn + bool) \<times> state" where
  "sweep_point e t cfg m v s =
     (case point t cfg v of (p, c) \<Rightarrow>
       (case repetitions e m p c (nat (runs_per_config cfg)) [] s of
          (Inl x, s1) \<Rightarrow> (Inl x, s1)
        | (Inr ts, s1) \<Rightarrow>
            if length ts > 0 then
              (let s2 = s1\<lparr>results := results s1 @ [summary t m p c ts]\<rparr>
               in if average_time (summary t m p c ts) > max_runtime_seconds cfg
                  then (Inr False, s2) else (Inr True, s2))
            else (Inr False, s1)))"

text \<open>The \<^verbatim>\<open>while\<close> loop from control value \<open>v\<close>. The script has no guard against a
  non-positive increment, with which the loop need not end: \<open>None\<close> is a run that never
  returns.\<close>

partial_function (option) sweep_while ::
  "env \<Rightarrow> sweep \<Rightarrow> config \<Rightarrow> string \<Rightarrow> int \<Rightarrow> state \<Rightarrow> ((exn + unit) \<times> state) option" where
  "sweep_while e t cfg m v s =
     (if v \<le> maximum cfg then
        (case sweep_point e t cfg m v s of
           (Inl x, s1) \<Rightarrow> Some (Inl x, s1)
         | (Inr go_on, s1) \<Rightarrow>
             if go_on then sweep_while e t cfg m (v + increment cfg) s1
             else Some (Inr (), s1))
      else Some (Inr (), s))"

text \<open>The \<^verbatim>\<open>for mode in ["distributed"]\<close> loop around it (\<^verbatim>\<open>time.sleep\<close> left out).\<close>

fun sweep_modes ::
  "env \<Rightarrow> sweep \<Rightarrow> config \<Rightarrow> string list \<Rightarrow> state \<Rightarrow> ((exn + unit) \<times> state) option" where
  "sweep_modes e t cfg [] s = Some (Inr (), s)"
| "sweep_modes e t cfg (m # ms) s =
     (case sweep_while e t cfg m (starting cfg) s of
        None \<Rightarrow> None
      | Some (Inl x, s1) \<Rightarrow> Some (Inl x, s1)
      | Some (Inr u, s1) \<Rightarrow>
          sweep_modes e t cfg ms (if m = ''distributed'' then stop_worker e s1 else s1))"

definition fixed_particles_test :: "env \<Rightarrow> state \<Rightarrow> ((exn + unit) \<times> state) option" where
  "fixed_particles_test e s =
     sweep_modes e Fixed_Particles FIXED_PARTICLES_TEST [''distributed''] s"

definition fixed_cycles_test :: "env \<Rightarrow> state \<Rightarrow> ((exn + unit) \<times> state) option" where
  "fixed_cycles_test e s = sweep_modes e Fixed_Cycles FIXED_CYCLES_TEST [''distributed''] s"

subsection \<open>\<^verbatim>\<open>save_results\<close> and \<^verbatim>\<open>run_all_tests\<close>\<close>

text \<open>The list handed to \<^verbatim>\<open>writer.writerow\<close>. The padded list has at least three
  elements, so the three index reads are in range.\<close>

definition row :: "result \<Rightarrow> cell list" where
  "row r =
     (let slots = map Float (run_times r) @ replicate (3 - length (run_times r)) Absent
      in [Text (mode r), Integer (particles r), Integer (cycles r), slots ! 0, slots ! 1, slots ! 2,
          Float (average_time r), Float (std_dev r)])"

text \<open>One \<^verbatim>\<open>if rs: with open(name, 'a', newline='') as f: ...\<close> block. A file that does
  not exist yet has no rows.\<close>

definition append_rows :: "env \<Rightarrow> string \<Rightarrow> result list \<Rightarrow> state \<Rightarrow> (exn + unit) \<times> state" where
  "append_rows e name rs s =
     (if rs \<noteq> [] then
        (case fopen e (clock s) of
           Some x \<Rightarrow> (Inl x, s\<lparr>clock := Suc (clock s)\<rparr>)
         | None \<Rightarrow>
             (Inr (), s\<lparr>files := (files s)(name := files s name @ map row rs),
                        clock := Suc (clock s)\<rparr>))
      else (Inr (), s))"

definition save_results :: "env \<Rightarrow> state \<Rightarrow> (exn + unit) \<times> state" where
  "save_results e s =
     (case append_rows e ''fixed_particles_results.csv''
             (filter (\<lambda>r. test_type r = ''Fixed_Particles'') (results s)) s of
        (Inl x, s1) \<Rightarrow> (Inl x, s1)
      | (Inr u, s1) \<Rightarrow>
          append_rows e ''fixed_cycles_results.csv''
            (filter (\<lambda>r. test_type r = ''Fixed_Cycles'') (results s)) s1)"

definition setup_environment :: "env \<Rightarrow> state \<Rightarrow> (exn + unit) \<times> state" where
  "setup_environment e s = (case setup_raises e of None \<Rightarrow> (Inr (), s) | Some x \<Rightarrow> (Inl x, s))"

definition cleanup :: "env \<Rightarrow> state \<Rightarrow> state" where
  "cleanup e s = stop_worker e s"

text \<open>The body of the \<^verbatim>\<open>try\<close> block of \<^verbatim>\<open>run_all_tests\<close>.\<close>

definition all_tests :: "env \<Rightarrow> state \<Rightarrow> ((exn + unit) \<times> state) option" where
  "all_tests e s =
     (case setup_environment e s of
        (Inl x, s1) \<Rightarrow> Some (Inl x, s1)
      | (Inr u, s1) \<Rightarrow>
          (case fixed_particles_test e s1 of
             None \<Rightarrow> None
           | Some (Inl x, s2) \<Rightarrow> Some (Inl x, s2)
           | Some (Inr u, s2) \<Rightarrow>
               (case fixed_cycles_test e s2 of
                  None \<Rightarrow> None
                | Some (Inl x, s3) \<Rightarrow> Some (Inl x, s3)
                | Some (Inr u, s3) \<Rightarrow> Some (save_results e s3))))"

text \<open>\<^verbatim>\<open>except KeyboardInterrupt\<close> and \<^verbatim>\<open>except Exception\<close> swallow the exception,
  \<^verbatim>\<open>SystemExit\<close> goes on; \<^verbatim>\<open>finally\<close> runs \<^verbatim>\<open>cleanup\<close> in every case.\<close>

definition run_all_tests :: "env \<Rightarrow> state \<Rightarrow> ((exn + unit) \<times> state) option" where
  "run_all_tests e s =
     (case all_tests e s of
        None \<Rightarrow> None
      | Some (r, s1) \<Rightarrow>
          Some (case r of
                  Inl x \<Rightarrow> if x = KeyboardInterrupt \<or> is_Exception x then Inr () else Inl x
                | Inr u \<Rightarrow> Inr u,
                cleanup e s1))"

text \<open>The state after \<^verbatim>\<open>PerformanceTest()\<close>, with no file on disk.\<close>

definition init :: state where
  "init =
     \<lparr>worker_processes = None, results = [], files = (\<lambda>name. []), clock = 0, calls = [],
      launches = [], started = [], terminated = [], killed = []\<rparr>"

subsection \<open>Notions used in the statements\<close>

text \<open>The control value (the swept dimension) of a \<^verbatim>\<open>run_simulation\<close> call and of a
  summary record.\<close>

fun call_control :: "sweep \<Rightarrow> string \<times> int \<times> int \<Rightarrow> int" where
  "call_control Fixed_Particles (m, p, c) = c"
| "call_control Fixed_Cycles (m, p, c) = p"

fun control :: "sweep \<Rightarrow> result \<Rightarrow> int" where
  "control Fixed_Particles r = cycles r"
| "control Fixed_Cycles r = particles r"

text \<open>What a run added to a log that only grows.\<close>

definition added :: "'a list \<Rightarrow> 'a list \<Rightarrow> 'a list" where
  "added before after = drop (length before) after"

text \<open>Every worker \<^verbatim>\<open>Popen\<close> returned has received \<^verbatim>\<open>terminate()\<close> or is still in the
  handle list.\<close>

definition tracked :: "state \<Rightarrow> bool" where
  "tracked s = (set (started s) \<subseteq> set (terminated s) \<union> set (workers s))"

text \<open>The outcomes of the trials of one point, in the order in which they are run: the
  results of \<open>n\<close> successive \<^verbatim>\<open>run_simulation\<close> calls (up to the first that raises).\<close>

fun trial_outcomes :: "env \<Rightarrow> string \<Rightarrow> int \<Rightarrow> int \<Rightarrow> nat \<Rightarrow> state \<Rightarrow> real option list" where
  "trial_outcomes e m p c 0 s = []"
| "trial_outcomes e m p c (Suc n) s =
     (case run_simulation e m p c s of
        (Inl x, s1) \<Rightarrow> []
      | (Inr r, s1) \<Rightarrow> r # trial_outcomes e m p c n s1)"

text \<open>The \<open>i\<close>-th repetition-time column of a record: the \<open>i\<close>-th successful time, or the
  absent-value marker.\<close>

definition slot :: "result \<Rightarrow> nat \<Rightarrow> cell" where
  "slot r i = (if i < length (run_times r) then Float (run_times r ! i) else Absent)"

subsection \<open>Some outside worlds\<close>

text \<open>A world in which every worker starts and stops at once, nothing else fails, and the
  \<open>k\<close>-th interaction, when it is a driver run, ends as \<open>d k\<close> says.\<close>

definition world :: "(nat \<Rightarrow> run_outcome) \<Rightarrow> env" where
  "world d =
     \<lparr>popen = (\<lambda>k. Running), driver = d, wait = (\<lambda>k. True), setup_raises = None,
      fopen = (\<lambda>k. None)\<rparr>"



text \<open>Every worker exits at once, and the driver runs nevertheless.\<close>

definition dead_worker_world :: env where
  "dead_worker_world =
     (world (\<lambda>k. Completed 0 ''Elapsed time: 1.0 s'' []))\<lparr>popen := (\<lambda>k. Exited [] [])\<rparr>"

text \<open>Every driver run exits with code 1.\<close>

definition failing_world :: env where
  "failing_world = world (\<lambda>k. Completed 1 [] ''error'')"

text \<open>Every driver run takes 200 seconds.\<close>

definition slow_world :: env where
  "slow_world = world (\<lambda>k. Completed 0 ''Elapsed time: 200 s'' [])"

text \<open>The first driver run times out, the second exits with code 1, the others take 10
  seconds.\<close>

definition mixed_world :: env where
  "mixed_world =
     world (\<lambda>k. if k = 0 then Run_raises TimeoutExpired
                else if k = 1 then Completed 1 [] ''error''
                else Completed 0 ''Elapsed time: 10 s'' [])"

text \<open>The launch of the third worker is interrupted from the keyboard.\<close>

definition interrupted_world :: env where
  "interrupted_world =
     (world (\<lambda>k. Completed 0 ''Elapsed time: 1.0 s'' []))
       \<lparr>popen := (\<lambda>k. if k = 2 then Popen_raises KeyboardInterrupt else Running)\<rparr>"

text \<open>A state with one summary record.\<close>

definition recorded :: state where
  "recorded = init\<lparr>results := [summary Fixed_Particles ''distributed'' 3000 500 [10]]\<rparr>"

section \<open>Properties\<close>

subsection \<open>What the helpers leave alone\<close>

lemma start_workers_frame:
  "results (snd (start_workers e n s)) = results s \<and> calls (snd (start_workers e n s)) = calls s
   \<and> files (snd (start_workers e n s)) = files s \<and> launches (snd (start_workers e n s)) = launches s"
  by (induction n arbitrary: s) (auto split: popen_outcome.splits)

lemma start_worker_frame:
  "results (snd (start_worker e s)) = results s \<and> calls (snd (start_worker e s)) = calls s
   \<and> files (snd (start_worker e s)) = files s \<and> launches (snd (start_worker e s)) = launches s"
  by (simp add: start_worker_def start_workers_frame)

lemma run_driver_frame:
  "results (snd (run_driver e m p c s)) = results s \<and> calls (snd (run_driver e m p c s)) = calls s
   \<and> files (snd (run_driver e m p c s)) = files s"
  by (simp add: run_driver_def Let_def split: sum.splits)

lemma run_simulation_results: "results (snd (run_simulation e m p c s)) = results s"
  using start_worker_frame[of e "s\<lparr>calls := calls s @ [(m, p, c)]\<rparr>"]
  by (auto simp: run_simulation_def Let_def run_driver_frame split: prod.splits sum.splits)

lemma run_simulation_calls: "calls (snd (run_simulation e m p c s)) = calls s @ [(m, p, c)]"
  using start_worker_frame[of e "s\<lparr>calls := calls s @ [(m, p, c)]\<rparr>"]
  by (auto simp: run_simulation_def Let_def run_driver_frame split: prod.splits sum.splits)

lemma run_simulation_files: "files (snd (run_simulation e m p c s)) = files s"
  using start_worker_frame[of e "s\<lparr>calls := calls s @ [(m, p, c)]\<rparr>"]
  by (auto simp: run_simulation_def Let_def run_driver_frame split: prod.splits sum.splits)






subsection \<open>One trial\<close>

lemmas float_eval = index_def strip_def py_isspace_def py_float_def is_digit_def exponent_def
  pow10_def nat_of_digits_def digit_val_def


lemma start_workers_ready:
  "fst (start_workers e n s) = Inr True \<Longrightarrow>
   length (workers (snd (start_workers e n s))) = length (workers s) + n"
  by (induction n arbitrary: s) (auto simp: workers_def split: popen_outcome.splits)

lemma start_worker_ready:
  "fst (start_worker e s) = Inr True \<Longrightarrow> length (workers (snd (start_worker e s))) = 4"
  using start_workers_ready[of e 4 "s\<lparr>worker_processes := Some []\<rparr>"]
  by (simp add: start_worker_def workers_def)


lemma run_simulation_direct:
  "m \<noteq> ''distributed'' \<or> workers s \<noteq> [] \<Longrightarrow>
   run_simulation e m p c s = run_driver e m p c (s\<lparr>calls := calls s @ [(m, p, c)]\<rparr>)"
  by (auto simp: run_simulation_def Let_def workers_def split: option.splits)







text \<open>
  Claim C3 on the script. The first worker exits at once: the first distributed trial returns
  \<^verbatim>\<open>None\<close> and leaves the dead worker in the handle list. The list is then non-empty, so the
  second trial skips \<^verbatim>\<open>start_worker\<close>, launches the driver with \<^verbatim>\<open>--workers 4\<close> against
  a list of one handle and returns a measurement.
\<close>

theorem partial_pool_is_used:
  "fst (run_simulation dead_worker_world ''distributed'' 3000 500 init) = Inr None \<and>
   worker_processes (snd (run_simulation dead_worker_world ''distributed'' 3000 500 init)) = Some [0] \<and>
   fst (run_simulation dead_worker_world ''distributed'' 3000 500
         (snd (run_simulation dead_worker_world ''distributed'' 3000 500 init))) = Inr (Some 1) \<and>
   launches (snd (run_simulation dead_worker_world ''distributed'' 3000 500
         (snd (run_simulation dead_worker_world ''distributed'' 3000 500 init)))) =
     [(''distributed'', 3000, 500, Some [0])]"
proof -
  have first: "run_simulation dead_worker_world ''distributed'' 3000 500 init =
    (Inr None, init\<lparr>worker_processes := Some [0], clock := 1, started := [0],
        calls := [(''distributed'', 3000, 500)]\<rparr>)"
    by (simp add: run_simulation_def start_worker_def dead_worker_world_def world_def init_def
        workers_def numeral_eq_Suc)
  show ?thesis
    unfolding first
    by (simp add: run_simulation_def run_driver_def try_body_def dead_worker_world_def world_def
        init_def workers_def float_eval)
qed

subsection \<open>The sweeps\<close>

lemma run_simulation_state:
  "run_simulation e m p c s = (r, s1) \<Longrightarrow>
   results s1 = results s \<and> calls s1 = calls s @ [(m, p, c)] \<and> files s1 = files s"
  using run_simulation_results[of e m p c s] run_simulation_calls[of e m p c s]
    run_simulation_files[of e m p c s] by simp

lemma repetitions_results:
  "repetitions e m p c n ts s = (r, s') \<Longrightarrow> results s' = results s \<and> files s' = files s"
proof (induction n arbitrary: ts s)
  case 0
  then show ?case by simp
next
  case (Suc n)
  obtain r1 s1 where rs: "run_simulation e m p c s = (r1, s1)" by force
  from run_simulation_state[OF rs] Suc.IH Suc.prems rs show ?case
    by (auto split: sum.splits option.splits)
qed

lemma repetitions_calls:
  "repetitions e m p c n ts s = (r, s') \<Longrightarrow>
   \<exists>k\<le>n. calls s' = calls s @ replicate k (m, p, c) \<and> (\<forall>ts'. r = Inr ts' \<longrightarrow> k = n)"
proof (induction n arbitrary: ts s)
  case 0
  then show ?case by auto
next
  case (Suc n)
  obtain r1 s1 where rs: "run_simulation e m p c s = (r1, s1)" by force
  have c1: "calls s1 = calls s @ [(m, p, c)]" using run_simulation_state[OF rs] by simp
  show ?case
  proof (cases r1)
    case (Inl x)
    with Suc.prems rs have "s' = s1" "r = Inl x" by auto
    with c1 have "calls s' = calls s @ replicate 1 (m, p, c) \<and> (\<forall>ts'. r = Inr ts' \<longrightarrow> 1 = Suc n)"
      by simp
    then show ?thesis by (intro exI[of _ 1]) simp
  next
    case (Inr o1)
    then obtain ts1 where "repetitions e m p c n ts1 s1 = (r, s')"
      using Suc.prems rs by (cases o1) auto
    from Suc.IH[OF this] obtain k where k: "k \<le> n" "calls s' = calls s1 @ replicate k (m, p, c)"
      "\<forall>ts'. r = Inr ts' \<longrightarrow> k = n" by blast
    from k c1 have "calls s' = calls s @ replicate (Suc k) (m, p, c)"
      by (simp add: replicate_append_same)
    with k show ?thesis by (intro exI[of _ "Suc k"]) simp
  qed
qed

lemma repetitions_length:
  "repetitions e m p c n ts s = (Inr ts', s') \<Longrightarrow> length ts' \<le> length ts + n"
proof (induction n arbitrary: ts s)
  case 0
  then show ?case by simp
next
  case (Suc n)
  obtain r1 s1 where rs: "run_simulation e m p c s = (r1, s1)" by force
  with Suc.prems obtain o1 where r1: "r1 = Inr o1" by (cases r1) auto
  show ?case
  proof (cases o1)
    case None
    with Suc.prems rs r1 have "repetitions e m p c n ts s1 = (Inr ts', s')" by simp
    from Suc.IH[OF this] show ?thesis by simp
  next
    case (Some x)
    with Suc.prems rs r1 have "repetitions e m p c n (ts @ [x]) s1 = (Inr ts', s')" by simp
    from Suc.IH[OF this] show ?thesis by simp
  qed
qed

lemma control_summary: "point t cfg v = (p, c) \<Longrightarrow> control t (summary t m p c ts) = v"
  by (cases t) (auto simp: summary_def)

lemma call_control_point: "point t cfg v = (p, c) \<Longrightarrow> call_control t (m, p, c) = v"
  by (cases t) auto

text \<open>What one pass through the loop body adds to the two logs.\<close>

lemma sweep_point_trace:
  assumes "sweep_point e t cfg m v s = (r, s1)"
  shows "\<exists>recs cs. results s1 = results s @ recs \<and> calls s1 = calls s @ cs \<and>
           length recs \<le> 1 \<and> (\<forall>x\<in>set recs. control t x = v) \<and>
           (r = Inr True \<longrightarrow> recs \<noteq> []) \<and> (recs \<noteq> [] \<longrightarrow> cs \<noteq> []) \<and>
           length cs \<le> nat (runs_per_config cfg) \<and> (\<forall>y\<in>set cs. call_control t y = v)"
proof -
  obtain p c where pc: "point t cfg v = (p, c)" by force
  obtain r0 s0 where rep: "repetitions e m p c (nat (runs_per_config cfg)) [] s = (r0, s0)"
    by force
  from repetitions_calls[OF rep] obtain k where k: "k \<le> nat (runs_per_config cfg)"
    "calls s0 = calls s @ replicate k (m, p, c)"
    "\<forall>ts'. r0 = Inr ts' \<longrightarrow> k = nat (runs_per_config cfg)"
    by blast
  have res0: "results s0 = results s" using repetitions_results[OF rep] by simp
  have cs: "\<forall>y\<in>set (replicate k (m, p, c)). call_control t y = v"
    using call_control_point[OF pc] by simp
  show ?thesis
  proof (cases r0)
    case (Inl x)
    with assms pc rep have "s1 = s0" by (simp add: sweep_point_def)
    moreover from Inl assms pc rep have "r = Inl x" by (simp add: sweep_point_def)
    ultimately show ?thesis using res0 cs k
      by (intro exI[of _ "[]"] exI[of _ "replicate k (m, p, c)"]) simp
  next
    case (Inr ts)
    show ?thesis
    proof (cases "ts = []")
      case True
      with Inr assms pc rep have "s1 = s0" "r = Inr False" by (simp_all add: sweep_point_def)
      then show ?thesis using res0 cs k
        by (intro exI[of _ "[]"] exI[of _ "replicate k (m, p, c)"]) simp
    next
      case False
      with Inr assms pc rep have s1: "s1 = s0\<lparr>results := results s0 @ [summary t m p c ts]\<rparr>"
        by (auto simp: sweep_point_def Let_def split: if_splits)
      have "k \<noteq> 0"
        using repetitions_length[OF rep[unfolded Inr]] False k(3) Inr by auto
      then show ?thesis using res0 cs k s1 control_summary[OF pc]
        by (intro exI[of _ "[summary t m p c ts]"] exI[of _ "replicate k (m, p, c)"]) simp
    qed
  qed
qed

lemma grid_step: "(v::int) + i + int k * i = v + int (Suc k) * i"
  by (simp add: algebra_simps)

lemma grid_above: "0 < (i::int) \<Longrightarrow> x = v + i + int k * i \<Longrightarrow> v < x"
proof -
  assume "0 < i" "x = v + i + int k * i"
  moreover from \<open>0 < i\<close> have "0 \<le> int k * i" by simp
  ultimately show ?thesis by linarith
qed

text \<open>
  Claim C4. With a positive increment the \<^verbatim>\<open>while\<close> loop started at \<open>v\<close> returns. The
  control values of the summary records it appends are strictly increasing, each is
  \<open>v + k * increment\<close> for a natural number \<open>k\<close> and none exceeds the upper bound. The
  \<^verbatim>\<open>run_simulation\<close> calls it makes come in the same order, one control value after the
  other, on the same grid, at most \<^verbatim>\<open>runs_per_config\<close> calls for a value; and every
  emitted value is one that was run.
\<close>

theorem sweep_order:
  assumes "0 < increment cfg"
  shows "\<exists>r s' recs cs. sweep_while e t cfg m v s = Some (r, s') \<and>
           results s' = results s @ recs \<and> calls s' = calls s @ cs \<and>
           sorted_wrt (<) (map (control t) recs) \<and>
           (\<forall>x\<in>set recs. \<exists>k. control t x = v + int k * increment cfg \<and>
                               control t x \<le> maximum cfg) \<and>
           sorted (map (call_control t) cs) \<and>
           (\<forall>y\<in>set cs. \<exists>k. call_control t y = v + int k * increment cfg \<and>
                             call_control t y \<le> maximum cfg) \<and>
           (\<forall>x. count_list (map (call_control t) cs) x \<le> nat (runs_per_config cfg)) \<and>
           set (map (control t) recs) \<subseteq> set (map (call_control t) cs)"
proof (induction "nat (maximum cfg + 1 - v)" arbitrary: v s rule: less_induct)
  case less
  let ?i = "increment cfg"
  show ?case
  proof (cases "v \<le> maximum cfg")
    case False
    then have "sweep_while e t cfg m v s = Some (Inr (), s)"
      by (subst sweep_while.simps) simp
    then show ?thesis
      by (intro exI[of _ "Inr ()"] exI[of _ s] exI[of _ "[]"]) simp
  next
    case True
    obtain r1 s1 where sp: "sweep_point e t cfg m v s = (r1, s1)" by force
    from sweep_point_trace[OF sp] obtain recs0 cs0 where p0:
      "results s1 = results s @ recs0" "calls s1 = calls s @ cs0" "length recs0 \<le> 1"
      "\<forall>x\<in>set recs0. control t x = v" "r1 = Inr True \<longrightarrow> recs0 \<noteq> []"
      "recs0 \<noteq> [] \<longrightarrow> cs0 \<noteq> []" "length cs0 \<le> nat (runs_per_config cfg)"
      "\<forall>y\<in>set cs0. call_control t y = v"
      by (elim exE conjE) (rule that; assumption)
    have cc0: "map (call_control t) cs0 = replicate (length cs0) v"
      using p0(8) by (simp add: map_replicate_const[symmetric] cong: map_cong)
    have sub0: "set (map (control t) recs0) \<subseteq> set (map (call_control t) cs0)"
    proof (cases "recs0 = []")
      case True
      then show ?thesis by simp
    next
      case False
      with p0(6) have "cs0 \<noteq> []" by simp
      then have "set (map (call_control t) cs0) = {v}" unfolding cc0 by simp
      moreover have "set (map (control t) recs0) \<subseteq> {v}" using p0(4) by auto
      ultimately show ?thesis by simp
    qed
    have grid0: "\<exists>k. v = v + int k * ?i \<and> v \<le> maximum cfg"
      using True by (intro exI[of _ 0]) simp
    have count0: "count_list (map (call_control t) cs0) x \<le> nat (runs_per_config cfg)" for x
      using count_le_length[of "map (call_control t) cs0" x] p0(7) by simp
    show ?thesis
    proof (cases "r1 = Inr True")
      case False
      then have "\<exists>r. sweep_while e t cfg m v s = Some (r, s1)"
        using True sp by (subst sweep_while.simps) (auto split: sum.splits)
      then obtain r where "sweep_while e t cfg m v s = Some (r, s1)" ..
      then show ?thesis
        using p0 grid0 sub0 count0
        by (intro exI[of _ r] exI[of _ s1] exI[of _ recs0] exI[of _ cs0])
           (simp add: sorted_wrt01 cc0)
    next
      case go: True
      have unfold: "sweep_while e t cfg m v s = sweep_while e t cfg m (v + ?i) s1"
        using True sp go by (subst sweep_while.simps) simp
      have "nat (maximum cfg + 1 - (v + ?i)) < nat (maximum cfg + 1 - v)"
        using True assms by linarith
      from less[OF this, of s1] obtain r s' recs cs where ih:
        "sweep_while e t cfg m (v + ?i) s1 = Some (r, s')"
        "results s' = results s1 @ recs" "calls s' = calls s1 @ cs"
        "sorted_wrt (<) (map (control t) recs)"
        "\<forall>x\<in>set recs. \<exists>k. control t x = v + ?i + int k * ?i \<and> control t x \<le> maximum cfg"
        "sorted (map (call_control t) cs)"
        "\<forall>y\<in>set cs. \<exists>k. call_control t y = v + ?i + int k * ?i \<and> call_control t y \<le> maximum cfg"
        "\<forall>x. count_list (map (call_control t) cs) x \<le> nat (runs_per_config cfg)"
        "set (map (control t) recs) \<subseteq> set (map (call_control t) cs)"
        by (elim exE conjE) (rule that; assumption)
      have above_r: "v < control t x" if "x \<in> set recs" for x
        using ih(5) that grid_above[OF assms] by blast
      have above_c: "v < call_control t y" if "y \<in> set cs" for y
        using ih(7) that grid_above[OF assms] by blast
      have g_r: "\<exists>k. control t x = v + int k * ?i \<and> control t x \<le> maximum cfg"
        if "x \<in> set (recs0 @ recs)" for x
      proof (cases "x \<in> set recs0")
        case True
        with p0(4) grid0 show ?thesis by auto
      next
        case False
        with that have "x \<in> set recs" by simp
        with ih(5) obtain k where "control t x = v + ?i + int k * ?i" "control t x \<le> maximum cfg"
          by blast
        then show ?thesis unfolding grid_step by blast
      qed
      have g_c: "\<exists>k. call_control t y = v + int k * ?i \<and> call_control t y \<le> maximum cfg"
        if "y \<in> set (cs0 @ cs)" for y
      proof (cases "y \<in> set cs0")
        case True
        with p0(8) grid0 show ?thesis by auto
      next
        case False
        with that have "y \<in> set cs" by simp
        with ih(7) obtain k where "call_control t y = v + ?i + int k * ?i"
          "call_control t y \<le> maximum cfg" by blast
        then show ?thesis unfolding grid_step by blast
      qed
      have s_r: "sorted_wrt (<) (map (control t) (recs0 @ recs))"
        using ih(4) p0(3,4) above_r by (auto simp: sorted_wrt_append sorted_wrt01)
      have s_c: "sorted (map (call_control t) (cs0 @ cs))"
        using ih(6) above_c by (force simp: sorted_append cc0 intro: less_imp_le)
      have cnt: "count_list (map (call_control t) (cs0 @ cs)) x \<le> nat (runs_per_config cfg)"
        for x
      proof (cases "x = v")
        case True
        have "v \<notin> set (map (call_control t) cs)" using above_c by auto
        then have "count_list (map (call_control t) cs) x = 0" using True by simp
        with count0[of x] show ?thesis by simp
      next
        case False
        then have "x \<notin> set (map (call_control t) cs0)" unfolding cc0 by auto
        then have "count_list (map (call_control t) cs0) x = 0" by simp
        with ih(8) show ?thesis by simp
      qed
      have sub: "set (map (control t) (recs0 @ recs)) \<subseteq> set (map (call_control t) (cs0 @ cs))"
        using sub0 ih(9) by auto
      have b_r: "\<forall>x\<in>set (recs0 @ recs).
          \<exists>k. control t x = v + int k * ?i \<and> control t x \<le> maximum cfg"
        using g_r by blast
      have b_c: "\<forall>y\<in>set (cs0 @ cs).
          \<exists>k. call_control t y = v + int k * ?i \<and> call_control t y \<le> maximum cfg"
        using g_c by blast
      have all_c: "\<forall>x. count_list (map (call_control t) (cs0 @ cs)) x \<le> nat (runs_per_config cfg)"
        using cnt by blast
      show ?thesis
        using unfold ih(1,2,3) p0(1,2) s_r b_r s_c b_c all_c sub
        by (intro exI[of _ r] exI[of _ s'] exI[of _ "recs0 @ recs"] exI[of _ "cs0 @ cs"])
           (simp only: append_assoc simp_thms)
    qed
  qed
qed

text \<open>The first sweep of the script, in a world where every run takes 200 seconds.\<close>

theorem sweep_order_witness:
  "0 < increment FIXED_PARTICLES_TEST \<and>
   (\<exists>r s' recs cs.
      sweep_while slow_world Fixed_Particles FIXED_PARTICLES_TEST ''distributed'' 500 init =
        Some (r, s') \<and>
      results s' = results init @ recs \<and> calls s' = calls init @ cs \<and>
      sorted_wrt (<) (map (control Fixed_Particles) recs) \<and>
      sorted (map (call_control Fixed_Particles) cs) \<and>
      set (map (control Fixed_Particles) recs) \<subseteq> set (map (call_control Fixed_Particles) cs))"
proof -
  have h: "0 < increment FIXED_PARTICLES_TEST" by (simp add: FIXED_PARTICLES_TEST_def)
  from sweep_order [OF h, of slow_world Fixed_Particles "''distributed''" 500 init]
  obtain r s' recs cs where
    "sweep_while slow_world Fixed_Particles FIXED_PARTICLES_TEST ''distributed'' 500 init =
        Some (r, s')"
    "results s' = results init @ recs" "calls s' = calls init @ cs"
    "sorted_wrt (<) (map (control Fixed_Particles) recs)"
    "sorted (map (call_control Fixed_Particles) cs)"
    "set (map (control Fixed_Particles) recs) \<subseteq> set (map (call_control Fixed_Particles) cs)"
    by (elim exE conjE) (rule that; assumption)
  with h show ?thesis by blast
qed

lemma sweep_while_break:
  "v \<le> maximum cfg \<Longrightarrow> sweep_point e t cfg m v s = (Inr False, s1) \<Longrightarrow>
   sweep_while e t cfg m v s = Some (Inr (), s1)"
  by (subst sweep_while.simps) simp


lemma repetitions_all_calls:
  "repetitions e m p c n ts s = (Inr ts', s') \<Longrightarrow> calls s' = calls s @ replicate n (m, p, c)"
  using repetitions_calls[of e m p c n ts s "Inr ts'" s'] by auto

text \<open>
  Claim C1. At a point within the upper bound where the repetitions return a non-empty list
  of times whose mean exceeds \<^verbatim>\<open>max_runtime_seconds\<close>, the loop appends the summary record
  of this point and returns at once: its final state is the state after the repetitions plus
  that record, so the only \<^verbatim>\<open>run_simulation\<close> calls made from here on are the repetitions
  of this point.
\<close>

theorem budget_stop:
  assumes "v \<le> maximum cfg"
    and "point t cfg v = (p, c)"
    and "repetitions e m p c (nat (runs_per_config cfg)) [] s = (Inr ts, s1)"
    and "ts \<noteq> []"
    and "statistics_mean ts > max_runtime_seconds cfg"
  shows "sweep_while e t cfg m v s =
           Some (Inr (), s1\<lparr>results := results s @ [summary t m p c ts]\<rparr>) \<and>
         calls s1 = calls s @ replicate (nat (runs_per_config cfg)) (m, p, c)"
proof -
  have "results s1 = results s" using repetitions_results[OF assms(3)] by simp
  then have "sweep_point e t cfg m v s =
      (Inr False, s1\<lparr>results := results s @ [summary t m p c ts]\<rparr>)"
    using assms by (simp add: sweep_point_def summary_def)
  from sweep_while_break[OF assms(1) this] repetitions_all_calls[OF assms(3)]
  show ?thesis by simp
qed

text \<open>The first point of the first sweep when every run takes 200 seconds.\<close>

lemma slow_repetitions:
  "repetitions slow_world ''distributed'' 3000 500 3 [] init =
     (Inr [200, 200, 200],
      init\<lparr>worker_processes := Some [0, 1, 2, 3], clock := 7,
           calls := replicate 3 (''distributed'', 3000, 500),
           launches := replicate 3 (''distributed'', 3000, 500, Some [0, 1, 2, 3]),
           started := [0, 1, 2, 3]\<rparr>)"
  by (simp add: numeral_eq_Suc run_simulation_def start_worker_def run_driver_def try_body_def
      slow_world_def world_def init_def workers_def float_eval)


theorem budget_stop_witness:
  "(500::int) \<le> maximum FIXED_PARTICLES_TEST \<and>
   point Fixed_Particles FIXED_PARTICLES_TEST 500 = (3000, 500) \<and>
   fst (repetitions slow_world ''distributed'' 3000 500
          (nat (runs_per_config FIXED_PARTICLES_TEST)) [] init) = Inr [200, 200, 200] \<and>
   statistics_mean [200, 200, 200] > max_runtime_seconds FIXED_PARTICLES_TEST \<and>
   sweep_while slow_world Fixed_Particles FIXED_PARTICLES_TEST ''distributed'' 500 init =
     Some (Inr (),
       init\<lparr>worker_processes := Some [0, 1, 2, 3],
            results := [summary Fixed_Particles ''distributed'' 3000 500 [200, 200, 200]],
            clock := 7,
            calls := replicate 3 (''distributed'', 3000, 500),
            launches := replicate 3 (''distributed'', 3000, 500, Some [0, 1, 2, 3]),
            started := [0, 1, 2, 3]\<rparr>)"
proof -
  have n: "nat (runs_per_config FIXED_PARTICLES_TEST) = 3"
    by (simp add: FIXED_PARTICLES_TEST_def)
  have h1: "(500::int) \<le> maximum FIXED_PARTICLES_TEST"
    by (simp add: FIXED_PARTICLES_TEST_def)
  have h2: "point Fixed_Particles FIXED_PARTICLES_TEST 500 = (3000, 500)"
    by (simp add: FIXED_PARTICLES_TEST_def)
  have h3: "repetitions slow_world ''distributed'' 3000 500
      (nat (runs_per_config FIXED_PARTICLES_TEST)) [] init =
     (Inr [200, 200, 200],
      init\<lparr>worker_processes := Some [0, 1, 2, 3], clock := 7,
           calls := replicate 3 (''distributed'', 3000, 500),
           launches := replicate 3 (''distributed'', 3000, 500, Some [0, 1, 2, 3]),
           started := [0, 1, 2, 3]\<rparr>)"
    unfolding n by (rule slow_repetitions)
  have h4: "[200, 200, 200] \<noteq> ([] :: real list)" by simp
  have h5: "statistics_mean [200, 200, 200] > max_runtime_seconds FIXED_PARTICLES_TEST"
    by (simp add: statistics_mean_def FIXED_PARTICLES_TEST_def)
  show ?thesis
    using budget_stop [OF h1 h2 h3 h4 h5] h1 h2 h3 h5
    by (simp add: init_def n)
qed

text \<open>
  Claim C2, as the script has it. At a point within the upper bound where every repetition
  fails, the loop returns at once with the state the repetitions left: the result list is
  unchanged (no record is written for the point, the script only prints a message), and the
  only \<^verbatim>\<open>run_simulation\<close> calls made from here on are the repetitions of this point.
\<close>

theorem all_failed_stop:
  assumes "v \<le> maximum cfg"
    and "point t cfg v = (p, c)"
    and "repetitions e m p c (nat (runs_per_config cfg)) [] s = (Inr [], s1)"
  shows "sweep_while e t cfg m v s = Some (Inr (), s1) \<and> results s1 = results s \<and>
         calls s1 = calls s @ replicate (nat (runs_per_config cfg)) (m, p, c)"
proof -
  have "sweep_point e t cfg m v s = (Inr False, s1)"
    using assms by (simp add: sweep_point_def)
  from sweep_while_break[OF assms(1) this] repetitions_all_calls[OF assms(3)]
    repetitions_results[OF assms(3)]
  show ?thesis by simp
qed

lemma failing_repetitions:
  "repetitions failing_world ''distributed'' 3000 500 3 [] init =
     (Inr [],
      init\<lparr>worker_processes := Some [0, 1, 2, 3], clock := 7,
           calls := replicate 3 (''distributed'', 3000, 500),
           launches := replicate 3 (''distributed'', 3000, 500, Some [0, 1, 2, 3]),
           started := [0, 1, 2, 3]\<rparr>)"
  by (simp add: numeral_eq_Suc run_simulation_def start_worker_def run_driver_def try_body_def
      failing_world_def world_def init_def workers_def)

theorem all_failed_stop_witness:
  "(500::int) \<le> maximum FIXED_PARTICLES_TEST \<and>
   point Fixed_Particles FIXED_PARTICLES_TEST 500 = (3000, 500) \<and>
   fst (repetitions failing_world ''distributed'' 3000 500
          (nat (runs_per_config FIXED_PARTICLES_TEST)) [] init) = Inr [] \<and>
   sweep_while failing_world Fixed_Particles FIXED_PARTICLES_TEST ''distributed'' 500 init =
     Some (Inr (),
       init\<lparr>worker_processes := Some [0, 1, 2, 3], clock := 7,
            calls := replicate 3 (''distributed'', 3000, 500),
            launches := replicate 3 (''distributed'', 3000, 500, Some [0, 1, 2, 3]),
            started := [0, 1, 2, 3]\<rparr>)"
proof -
  have n: "nat (runs_per_config FIXED_PARTICLES_TEST) = 3"
    by (simp add: FIXED_PARTICLES_TEST_def)
  have h1: "(500::int) \<le> maximum FIXED_PARTICLES_TEST"
    by (simp add: FIXED_PARTICLES_TEST_def)
  have h2: "point Fixed_Particles FIXED_PARTICLES_TEST 500 = (3000, 500)"
    by (simp add: FIXED_PARTICLES_TEST_def)
  have h3: "repetitions failing_world ''distributed'' 3000 500
      (nat (runs_per_config FIXED_PARTICLES_TEST)) [] init =
     (Inr [],
      init\<lparr>worker_processes := Some [0, 1, 2, 3], clock := 7,
           calls := replicate 3 (''distributed'', 3000, 500),
           launches := replicate 3 (''distributed'', 3000, 500, Some [0, 1, 2, 3]),
           started := [0, 1, 2, 3]\<rparr>)"
    unfolding n by (rule failing_repetitions)
  show ?thesis
    using all_failed_stop [OF h1 h2 h3] h1 h2 h3
    by (simp add: n)
qed

text \<open>The first sweep when every driver run fails: three calls at 500 cycles, no record.\<close>

theorem no_failure_record_counterexample:
  "map_option (results \<circ> snd) (fixed_particles_test failing_world init) = Some [] \<and>
   map_option (calls \<circ> snd) (fixed_particles_test failing_world init) =
     Some [(''distributed'', 3000, 500), (''distributed'', 3000, 500), (''distributed'', 3000, 500)]"
proof -
  have n: "nat (runs_per_config FIXED_PARTICLES_TEST) = 3"
    by (simp add: FIXED_PARTICLES_TEST_def)
  have p: "sweep_point failing_world Fixed_Particles FIXED_PARTICLES_TEST ''distributed'' 500 init =
     (Inr False,
      init\<lparr>worker_processes := Some [0, 1, 2, 3], clock := 7,
           calls := replicate 3 (''distributed'', 3000, 500),
           launches := replicate 3 (''distributed'', 3000, 500, Some [0, 1, 2, 3]),
           started := [0, 1, 2, 3]\<rparr>)"
    unfolding sweep_point_def n by (simp add: failing_repetitions) (simp add: FIXED_PARTICLES_TEST_def failing_repetitions)
  have "(500::int) \<le> maximum FIXED_PARTICLES_TEST" by (simp add: FIXED_PARTICLES_TEST_def)
  from sweep_while_break[OF this p] show ?thesis
    by (simp add: fixed_particles_test_def FIXED_PARTICLES_TEST_def stop_worker_def init_def
        numeral_eq_Suc)
qed

lemma repetitions_outcomes:
  "repetitions e m p c n ts s = (Inr ts', s') \<Longrightarrow>
   length (trial_outcomes e m p c n s) = n \<and>
   ts' = ts @ List.map_filter id (trial_outcomes e m p c n s)"
proof (induction n arbitrary: ts s)
  case 0
  then show ?case by simp
next
  case (Suc n)
  obtain r1 s1 where rs: "run_simulation e m p c s = (r1, s1)" by force
  with Suc.prems obtain o1 where r1: "r1 = Inr o1" by (cases r1) auto
  show ?case
  proof (cases o1)
    case None
    with Suc.prems rs r1 have "repetitions e m p c n ts s1 = (Inr ts', s')" by simp
    from Suc.IH[OF this] rs r1 None show ?thesis by simp
  next
    case (Some x)
    with Suc.prems rs r1 have "repetitions e m p c n (ts @ [x]) s1 = (Inr ts', s')" by simp
    from Suc.IH[OF this] rs r1 Some show ?thesis by simp
  qed
qed

text \<open>
  Claim C5. At a point where the repetitions return a non-empty list \<open>ts\<close>, the pass through
  the loop body appends one record. Its times are \<open>ts\<close>, the successful outcomes of the
  trials in order; its average is their sum divided by their number; its deviation is \<open>0\<close>
  for a single time and otherwise the square root of the sum of squared differences from the
  mean divided by the number of times less one.
\<close>

theorem summary_statistics:
  assumes "point t cfg v = (p, c)"
    and "repetitions e m p c (nat (runs_per_config cfg)) [] s = (Inr ts, s1)"
    and "ts \<noteq> []"
  shows "results (snd (sweep_point e t cfg m v s)) = results s @ [summary t m p c ts] \<and>
         ts = List.map_filter id (trial_outcomes e m p c (nat (runs_per_config cfg)) s) \<and>
         run_times (summary t m p c ts) = ts \<and>
         average_time (summary t m p c ts) = sum_list ts / real (length ts) \<and>
         std_dev (summary t m p c ts) =
           (if length ts = 1 then 0
            else sqrt ((\<Sum>x\<leftarrow>ts. (x - sum_list ts / real (length ts))\<^sup>2) / real (length ts - 1)))"
proof -
  have "results s1 = results s" using repetitions_results[OF assms(2)] by simp
  then have a: "results (snd (sweep_point e t cfg m v s)) = results s @ [summary t m p c ts]"
    using assms by (simp add: sweep_point_def Let_def)
  have b: "ts = List.map_filter id (trial_outcomes e m p c (nat (runs_per_config cfg)) s)"
    using repetitions_outcomes[OF assms(2)] by simp
  have "length ts = 1 \<or> length ts > 1" using assms(3) by (cases ts) auto
  then have c: "std_dev (summary t m p c ts) =
           (if length ts = 1 then 0
            else sqrt ((\<Sum>x\<leftarrow>ts. (x - sum_list ts / real (length ts))\<^sup>2) / real (length ts - 1)))"
    by (auto simp: summary_def statistics_stdev_def statistics_mean_def)
  from a b c show ?thesis by (simp add: summary_def statistics_mean_def)
qed

lemma mixed_repetitions:
  "repetitions mixed_world ''sequential'' 3000 500 3 [] init =
     (Inr [10],
      init\<lparr>clock := 3, calls := replicate 3 (''sequential'', 3000, 500),
           launches := replicate 3 (''sequential'', 3000, 500, None)\<rparr>)"
  by (simp add: numeral_eq_Suc run_simulation_def run_driver_def try_body_def
      mixed_world_def world_def init_def workers_def float_eval)

theorem summary_statistics_witness:
  "point Fixed_Particles FIXED_PARTICLES_TEST 500 = (3000, 500) \<and>
   fst (repetitions mixed_world ''sequential'' 3000 500
          (nat (runs_per_config FIXED_PARTICLES_TEST)) [] init) = Inr [10] \<and>
   results (snd (sweep_point mixed_world Fixed_Particles FIXED_PARTICLES_TEST ''sequential''
                   500 init)) =
     [summary Fixed_Particles ''sequential'' 3000 500 [10]] \<and>
   run_times (summary Fixed_Particles ''sequential'' 3000 500 [10]) = [10] \<and>
   average_time (summary Fixed_Particles ''sequential'' 3000 500 [10]) = 10 \<and>
   std_dev (summary Fixed_Particles ''sequential'' 3000 500 [10]) = 0"
proof -
  have n: "nat (runs_per_config FIXED_PARTICLES_TEST) = 3"
    by (simp add: FIXED_PARTICLES_TEST_def)
  have h1: "point Fixed_Particles FIXED_PARTICLES_TEST 500 = (3000, 500)"
    by (simp add: FIXED_PARTICLES_TEST_def)
  have h2: "repetitions mixed_world ''sequential'' 3000 500
      (nat (runs_per_config FIXED_PARTICLES_TEST)) [] init =
     (Inr [10],
      init\<lparr>clock := 3, calls := replicate 3 (''sequential'', 3000, 500),
           launches := replicate 3 (''sequential'', 3000, 500, None)\<rparr>)"
    unfolding n by (rule mixed_repetitions)
  have h3: "[10] \<noteq> ([] :: real list)" by simp
  note w = summary_statistics [OF h1 h2 h3]
  from w have a: "results (snd (sweep_point mixed_world Fixed_Particles FIXED_PARTICLES_TEST
      ''sequential'' 500 init)) = results init @ [summary Fixed_Particles ''sequential'' 3000 500 [10]]"
    by (rule conjunct1)
  from w have b: "average_time (summary Fixed_Particles ''sequential'' 3000 500 [10]) =
      sum_list [10] / real (length [10::real])"
    by (elim conjE)
  from w have c: "std_dev (summary Fixed_Particles ''sequential'' 3000 500 [10]) =
      (if length [10::real] = 1 then 0
       else sqrt ((\<Sum>x\<leftarrow>[10]. (x - sum_list [10] / real (length [10::real]))\<^sup>2) /
                  real (length [10::real] - 1)))"
    by (elim conjE)
  from w have d: "run_times (summary Fixed_Particles ''sequential'' 3000 500 [10]) = [10]"
    by (elim conjE)
  show ?thesis
    using a b c d h1 h2 by (simp add: init_def)
qed



subsection \<open>The result files\<close>

lemma row_columns:
  "row r = [Text (mode r), Integer (particles r), Integer (cycles r), slot r 0, slot r 1,
            slot r 2, Float (average_time r), Float (std_dev r)]"
  by (simp add: row_def slot_def Let_def nth_append)

lemma append_rows_files:
  "files (snd (append_rows e name rs s)) n =
     (if n = name \<and> fst (append_rows e name rs s) = Inr () then files s n @ map row rs
      else files s n)"
  by (auto simp: append_rows_def split: option.splits)

lemma append_rows_results: "results (snd (append_rows e name rs s)) = results s"
  by (auto simp: append_rows_def split: option.splits)

text \<open>
  Claim C9. A record is written as the eight cells mode, particles, cycles, three time slots,
  average and deviation, in this order; a slot holds the successful time of that index or
  the absent-value marker. \<^verbatim>\<open>save_results\<close> only adds to the end of a file: whatever
  the outcome, every file starts with the rows it had before. When no \<^verbatim>\<open>open\<close> fails,
  each of the two files has gained exactly the rows of its test type, in the order of
  \<^verbatim>\<open>self.results\<close>.
\<close>

theorem save_results_appends:
  "row r = [Text (mode r), Integer (particles r), Integer (cycles r), slot r 0, slot r 1,
            slot r 2, Float (average_time r), Float (std_dev r)] \<and>
   (\<exists>new. files (snd (save_results e s)) name = files s name @ new) \<and>
   (fst (save_results e s) = Inr () \<longrightarrow>
      files (snd (save_results e s)) ''fixed_particles_results.csv'' =
        files s ''fixed_particles_results.csv'' @
        map row (filter (\<lambda>r. test_type r = ''Fixed_Particles'') (results s)) \<and>
      files (snd (save_results e s)) ''fixed_cycles_results.csv'' =
        files s ''fixed_cycles_results.csv'' @
        map row (filter (\<lambda>r. test_type r = ''Fixed_Cycles'') (results s)))"
proof -
  let ?P = "filter (\<lambda>r. test_type r = ''Fixed_Particles'') (results s)"
  let ?C = "filter (\<lambda>r. test_type r = ''Fixed_Cycles'') (results s)"
  obtain r1 s1 where a1: "append_rows e ''fixed_particles_results.csv'' ?P s = (r1, s1)"
    by force
  obtain r2 s2 where a2: "append_rows e ''fixed_cycles_results.csv'' ?C s1 = (r2, s2)"
    by force
  have f1: "files s1 n = (if n = ''fixed_particles_results.csv'' \<and> r1 = Inr ()
      then files s n @ map row ?P else files s n)" for n
    using append_rows_files[of e "''fixed_particles_results.csv''" ?P s n] a1 by simp
  have f2: "files s2 n = (if n = ''fixed_cycles_results.csv'' \<and> r2 = Inr ()
      then files s1 n @ map row ?C else files s1 n)" for n
    using append_rows_files[of e "''fixed_cycles_results.csv''" ?C s1 n] a2 by simp
  have sr: "save_results e s = (case r1 of Inl x \<Rightarrow> (Inl x, s1) | Inr u \<Rightarrow> (r2, s2))"
    using a1 a2 by (simp add: save_results_def split: sum.splits)
  have grow: "\<exists>new. files (snd (save_results e s)) name = files s name @ new"
    unfolding sr by (cases r1) (auto simp: f1 f2)
  have ok: "files (snd (save_results e s)) ''fixed_particles_results.csv'' =
        files s ''fixed_particles_results.csv'' @ map row ?P \<and>
      files (snd (save_results e s)) ''fixed_cycles_results.csv'' =
        files s ''fixed_cycles_results.csv'' @ map row ?C"
    if "fst (save_results e s) = Inr ()"
    using that unfolding sr by (cases r1) (auto simp: f1 f2)
  from row_columns grow ok show ?thesis by blast
qed

text \<open>One record with a single successful time: two slots are padded.\<close>

theorem save_results_appends_witness:
  "fst (save_results slow_world recorded) = Inr () \<and>
   files (snd (save_results slow_world recorded)) ''fixed_particles_results.csv'' =
     [[Text ''distributed'', Integer 3000, Integer 500, Float 10, Absent, Absent,
       Float 10, Float 0]] \<and>
   files (snd (save_results slow_world recorded)) ''fixed_cycles_results.csv'' = []"
proof -
  have h: "fst (save_results slow_world recorded) = Inr ()"
    by (simp add: save_results_def append_rows_def recorded_def summary_def slow_world_def
        world_def init_def)
  have r: "row (summary Fixed_Particles ''distributed'' 3000 500 [10]) =
     [Text ''distributed'', Integer 3000, Integer 500, Float 10, Absent, Absent,
       Float 10, Float 0]"
    by (simp add: row_def summary_def statistics_mean_def)
  from save_results_appends [of "summary Fixed_Particles ''distributed'' 3000 500 [10]"
      slow_world recorded "''fixed_particles_results.csv''"] h
  have "files (snd (save_results slow_world recorded)) ''fixed_particles_results.csv'' =
        files recorded ''fixed_particles_results.csv'' @
        map row (filter (\<lambda>r. test_type r = ''Fixed_Particles'') (results recorded))"
    "files (snd (save_results slow_world recorded)) ''fixed_cycles_results.csv'' =
        files recorded ''fixed_cycles_results.csv'' @
        map row (filter (\<lambda>r. test_type r = ''Fixed_Cycles'') (results recorded))"
    by blast+
  then show ?thesis using h r
    by (simp add: recorded_def init_def summary_def)
qed

subsection \<open>Worker handles\<close>

lemma tracked_start_workers:
  "tracked s \<Longrightarrow> worker_processes s \<noteq> None \<Longrightarrow> tracked (snd (start_workers e n s))"
proof (induction n arbitrary: s)
  case 0
  then show ?case by simp
next
  case (Suc n)
  let ?s = "s\<lparr>worker_processes := Some (workers s @ [clock s]),
               started := started s @ [clock s], clock := Suc (clock s)\<rparr>"
  have t: "tracked ?s" using Suc.prems by (auto simp: tracked_def workers_def)
  have "tracked (snd (start_workers e n ?s))" by (rule Suc.IH[OF t]) simp
  with t Suc.prems show ?case
    by (cases "popen e (clock s)") (auto simp: tracked_def workers_def)
qed

lemma tracked_start_worker:
  assumes "tracked s" and "workers s = []"
  shows "tracked (snd (start_worker e s))"
proof -
  have "workers (s\<lparr>worker_processes := Some []\<rparr>) = []" by (simp add: workers_def)
  with assms have "tracked (s\<lparr>worker_processes := Some []\<rparr>)" by (simp add: tracked_def)
  then show ?thesis
    unfolding start_worker_def by (rule tracked_start_workers) simp
qed

lemma tracked_run_driver: "tracked s \<Longrightarrow> tracked (snd (run_driver e m p c s))"
  by (auto simp: run_driver_def Let_def tracked_def workers_def split: sum.splits)

lemma tracked_run_simulation: "tracked s \<Longrightarrow> tracked (snd (run_simulation e m p c s))"
proof -
  assume t: "tracked s"
  let ?s = "s\<lparr>calls := calls s @ [(m, p, c)]\<rparr>"
  have t': "tracked ?s" using t by (simp add: tracked_def workers_def)
  show ?thesis
  proof (cases "m = ''distributed'' \<and> workers s = []")
    case False
    then have "run_simulation e m p c s = run_driver e m p c ?s"
      by (auto simp: run_simulation_direct)
    with t' show ?thesis by (simp add: tracked_run_driver)
  next
    case True
    then have w: "workers ?s = []" by (simp add: workers_def)
    obtain r1 s1 where sw: "start_worker e ?s = (r1, s1)" by force
    have t1: "tracked s1" using tracked_start_worker[OF t' w, of e] sw by simp
    have "snd (run_simulation e m p c s) = s1 \<or>
          snd (run_simulation e m p c s) = snd (run_driver e m p c s1)"
      using True w sw by (auto simp: run_simulation_def Let_def split: sum.splits)
    with t1 show ?thesis using tracked_run_driver[OF t1] by auto
  qed
qed

lemma tracked_repetitions:
  "tracked s \<Longrightarrow> tracked (snd (repetitions e m p c n ts s))"
proof (induction n arbitrary: ts s)
  case 0
  then show ?case by simp
next
  case (Suc n)
  obtain r1 s1 where rs: "run_simulation e m p c s = (r1, s1)" by force
  have t1: "tracked s1" using tracked_run_simulation[OF Suc.prems, of e m p c] rs by simp
  show ?case using rs t1 Suc.IH[OF t1]
    by (auto split: sum.splits option.splits)
qed

lemma tracked_sweep_point: "tracked s \<Longrightarrow> tracked (snd (sweep_point e t cfg m v s))"
proof -
  assume t: "tracked s"
  obtain p c where pc: "point t cfg v = (p, c)" by force
  obtain r0 s0 where rep: "repetitions e m p c (nat (runs_per_config cfg)) [] s = (r0, s0)"
    by force
  have t0: "tracked s0" using tracked_repetitions[OF t, of e m p c "nat (runs_per_config cfg)" "[]"] rep by simp
  then have "tracked (s0\<lparr>results := x\<rparr>)" for x by (simp add: tracked_def workers_def)
  with t0 pc rep show ?thesis
    by (auto simp: sweep_point_def Let_def split: sum.splits)
qed

lemma tracked_sweep_while:
  assumes "sweep_while e t cfg m v s = Some y"
  shows "tracked s \<longrightarrow> tracked (snd y)"
proof (rule sweep_while.raw_induct[where P = "\<lambda>e t cfg m v s y. tracked s \<longrightarrow> tracked (snd y)",
      OF _ assms], goal_cases)
  case (1 f e t cfg m v s y)
  show ?case
  proof
    assume tr: "tracked s"
    show "tracked (snd y)"
    proof (cases "v \<le> maximum cfg")
      case False
      with 1(2) have "snd y = s" by auto
      with tr show ?thesis by simp
    next
      case True
      obtain r1 s1 where sp: "sweep_point e t cfg m v s = (r1, s1)" by force
      have t1: "tracked s1" using tracked_sweep_point[OF tr, of e t cfg m v] sp by simp
      show ?thesis
      proof (cases "r1 = Inr True")
        case go: True
        with 1(2) True sp have "f e t cfg m (v + increment cfg) s1 = Some y" by simp
        from 1(1)[OF this] t1 show ?thesis by simp
      next
        case False
        with 1(2) True sp have "snd y = s1" by (auto split: sum.splits if_splits)
        with t1 show ?thesis by simp
      qed
    qed
  qed
qed

lemma stop_workers_fields:
  "terminated (stop_workers e ws s) = terminated s @ ws \<and>
   started (stop_workers e ws s) = started s \<and>
   clock (stop_workers e ws s) = clock s + length ws \<and>
   results (stop_workers e ws s) = results s \<and>
   killed (stop_workers e ws s) =
     killed s @ map (\<lambda>i. ws ! i) (filter (\<lambda>i. \<not> wait e (clock s + i)) [0..<length ws])"
proof (induction ws arbitrary: s)
  case Nil
  then show ?case by simp
next
  case (Cons w ws)
  have shift: "map (\<lambda>i. (w # ws) ! i) (filter (\<lambda>i. \<not> wait e (clock s + i)) [0..<length (w # ws)]) =
      (if wait e (clock s) then [] else [w]) @
      map (\<lambda>i. ws ! i) (filter (\<lambda>i. \<not> wait e (Suc (clock s) + i)) [0..<length ws])"
    by (simp add: upt_conv_Cons map_Suc_upt[symmetric] filter_map comp_def del: upt_Suc)
  show ?case
    unfolding shift by (simp add: Cons.IH)
qed

lemma stop_worker_fields:
  "terminated (stop_worker e s) = terminated s @ workers s \<and>
   started (stop_worker e s) = started s \<and>
   workers (stop_worker e s) = [] \<and>
   killed (stop_worker e s) =
     killed s @ map (\<lambda>i. workers s ! i)
                  (filter (\<lambda>i. \<not> wait e (clock s + i)) [0..<length (workers s)])"
  by (cases "worker_processes s") (simp_all add: stop_worker_def workers_def stop_workers_fields)

lemma stopped_stop_worker:
  "tracked s \<Longrightarrow> set (started (stop_worker e s)) \<subseteq> set (terminated (stop_worker e s))"
  by (auto simp: stop_worker_fields tracked_def)

lemma tracked_stop_worker: "tracked s \<Longrightarrow> tracked (stop_worker e s)"
  using stopped_stop_worker[of s e] by (auto simp: tracked_def)

lemma tracked_sweep_modes:
  "sweep_modes e t cfg ms s = Some y \<Longrightarrow> tracked s \<Longrightarrow> tracked (snd y)"
proof (induction ms arbitrary: s)
  case Nil
  then show ?case by auto
next
  case (Cons m ms)
  from Cons.prems(1) obtain r1 s1 where sw: "sweep_while e t cfg m (starting cfg) s = Some (r1, s1)"
    by (cases "sweep_while e t cfg m (starting cfg) s") auto
  have t1: "tracked s1" using tracked_sweep_while[OF sw] Cons.prems(2) by simp
  show ?case
  proof (cases r1)
    case (Inl x)
    with Cons.prems(1) sw have "snd y = s1" by auto
    with t1 show ?thesis by simp
  next
    case (Inr u)
    let ?s2 = "if m = ''distributed'' then stop_worker e s1 else s1"
    have t2: "tracked ?s2" using t1 by (simp add: tracked_stop_worker)
    from Inr Cons.prems(1) sw have "sweep_modes e t cfg ms ?s2 = Some y" by simp
    from Cons.IH[OF this t2] show ?thesis .
  qed
qed

lemma sweep_while_returns:
  assumes "0 < increment cfg"
  shows "\<exists>y. sweep_while e t cfg m v s = Some y"
proof (induction "nat (maximum cfg + 1 - v)" arbitrary: v s rule: less_induct)
  case less
  show ?case
  proof (cases "v \<le> maximum cfg")
    case False
    then show ?thesis by (subst sweep_while.simps) simp
  next
    case True
    obtain r1 s1 where sp: "sweep_point e t cfg m v s = (r1, s1)" by force
    show ?thesis
    proof (cases "r1 = Inr True")
      case False
      then show ?thesis
        using True sp by (subst sweep_while.simps) (auto split: sum.splits)
    next
      case go: True
      have "nat (maximum cfg + 1 - (v + increment cfg)) < nat (maximum cfg + 1 - v)"
        using True assms by linarith
      from less[OF this, of s1] show ?thesis
        using True sp go by (subst sweep_while.simps) simp
    qed
  qed
qed

lemma sweep_modes_returns:
  "0 < increment cfg \<Longrightarrow> \<exists>y. sweep_modes e t cfg ms s = Some y"
proof (induction ms arbitrary: s)
  case Nil
  then show ?case by simp
next
  case (Cons m ms)
  from sweep_while_returns[OF Cons.prems, of e t m "starting cfg" s]
  obtain r1 s1 where sw: "sweep_while e t cfg m (starting cfg) s = Some (r1, s1)" by force
  show ?case
  proof (cases r1)
    case (Inl x)
    with sw show ?thesis by simp
  next
    case (Inr u)
    with sw Cons.IH[OF Cons.prems] show ?thesis by simp
  qed
qed

lemma tracked_append_rows: "tracked s \<Longrightarrow> tracked (snd (append_rows e name rs s))"
  by (auto simp: append_rows_def tracked_def workers_def split: option.splits)

lemma tracked_save_results: "tracked s \<Longrightarrow> tracked (snd (save_results e s))"
proof -
  assume t: "tracked s"
  let ?a = "append_rows e ''fixed_particles_results.csv''
             (filter (\<lambda>r. test_type r = ''Fixed_Particles'') (results s)) s"
  have t1: "tracked (snd ?a)" using t by (rule tracked_append_rows)
  show ?thesis
    using t1 tracked_append_rows[OF t1]
    by (cases ?a) (auto simp: save_results_def split: sum.splits)
qed

lemma fixed_tests_return:
  "\<exists>y. fixed_particles_test e s = Some y" "\<exists>y. fixed_cycles_test e s = Some y"
  unfolding fixed_particles_test_def fixed_cycles_test_def
  by (rule sweep_modes_returns, simp add: FIXED_PARTICLES_TEST_def FIXED_CYCLES_TEST_def)+

lemma all_tests_tracked:
  assumes "tracked s"
  shows "\<exists>r s1. all_tests e s = Some (r, s1) \<and> tracked s1"
proof (cases "setup_raises e")
  case (Some x)
  then have "all_tests e s = Some (Inl x, s)"
    by (simp add: all_tests_def setup_environment_def)
  with assms show ?thesis by simp
next
  case None
  obtain r2 s2 where p: "fixed_particles_test e s = Some (r2, s2)"
    using fixed_tests_return(1)[of e s] by auto
  have t2: "tracked s2"
    using tracked_sweep_modes[OF p[unfolded fixed_particles_test_def] assms] by simp
  show ?thesis
  proof (cases r2)
    case (Inl x)
    with None p have "all_tests e s = Some (Inl x, s2)"
      by (simp add: all_tests_def setup_environment_def)
    with t2 show ?thesis by simp
  next
    case (Inr u)
    obtain r3 s3 where c: "fixed_cycles_test e s2 = Some (r3, s3)"
      using fixed_tests_return(2)[of e s2] by auto
    have t3: "tracked s3"
      using tracked_sweep_modes[OF c[unfolded fixed_cycles_test_def] t2] by simp
    show ?thesis
    proof (cases r3)
      case (Inl x)
      with Inr None p c have "all_tests e s = Some (Inl x, s3)"
        by (simp add: all_tests_def setup_environment_def)
      with t3 show ?thesis by simp
    next
      case inr3: (Inr u3)
      with Inr None p c have "all_tests e s = Some (save_results e s3)"
        by (simp add: all_tests_def setup_environment_def)
      then have "all_tests e s = Some (fst (save_results e s3), snd (save_results e s3))"
        by simp
      with tracked_save_results[OF t3, of e] show ?thesis by blast
    qed
  qed
qed

text \<open>
  Claim C7. From a state in which every started worker is terminated or in the handle list
  (the fresh object is one), \<^verbatim>\<open>run_all_tests\<close> returns, and when it does, whichever way
  the \<^verbatim>\<open>try\<close> block ended, every worker that was started has received
  \<^verbatim>\<open>terminate()\<close> and the handle list is empty. \<^verbatim>\<open>stop_worker\<close> does nothing when
  the attribute was never set; otherwise it sends \<^verbatim>\<open>terminate()\<close> to every handle of the
  list, \<^verbatim>\<open>kill()\<close> to those whose five-second \<^verbatim>\<open>wait\<close> times out, and empties the
  list. Interruptions are those the outside world delivers at a worker launch or at a driver
  run.
\<close>

theorem no_handle_leaks:
  "(tracked s \<longrightarrow>
      (\<exists>r s'. run_all_tests e s = Some (r, s') \<and>
               set (started s') \<subseteq> set (terminated s') \<and> workers s' = [])) \<and>
   (worker_processes s = None \<longrightarrow> stop_worker e s = s) \<and>
   terminated (stop_worker e s) = terminated s @ workers s \<and>
   killed (stop_worker e s) =
     killed s @ map (\<lambda>i. workers s ! i)
                  (filter (\<lambda>i. \<not> wait e (clock s + i)) [0..<length (workers s)]) \<and>
   workers (stop_worker e s) = []"
proof -
  have run: "\<exists>r s'. run_all_tests e s = Some (r, s') \<and>
               set (started s') \<subseteq> set (terminated s') \<and> workers s' = []"
    if "tracked s"
  proof -
    from all_tests_tracked[OF that, of e] obtain r s1 where
      a: "all_tests e s = Some (r, s1)" and t1: "tracked s1" by blast
    let ?r = "case r of Inl x \<Rightarrow> if x = KeyboardInterrupt \<or> is_Exception x then Inr () else Inl x
              | Inr u \<Rightarrow> Inr u"
    have "run_all_tests e s = Some (?r, stop_worker e s1)"
      using a by (simp add: run_all_tests_def cleanup_def)
    moreover have "set (started (stop_worker e s1)) \<subseteq> set (terminated (stop_worker e s1))"
      using t1 by (rule stopped_stop_worker)
    moreover have "workers (stop_worker e s1) = []" by (simp add: stop_worker_fields)
    ultimately show ?thesis by blast
  qed
  have never: "stop_worker e s = s" if "worker_processes s = None"
    using that by (simp add: stop_worker_def)
  from run never stop_worker_fields[of e s] show ?thesis by blast
qed

lemma sweep_while_raise:
  "v \<le> maximum cfg \<Longrightarrow> sweep_point e t cfg m v s = (Inl x, s1) \<Longrightarrow>
   sweep_while e t cfg m v s = Some (Inl x, s1)"
  by (subst sweep_while.simps) simp

text \<open>A run interrupted while the third worker starts: the two workers that run are
  terminated by \<^verbatim>\<open>cleanup\<close>.\<close>

lemma interrupted_run:
  "run_all_tests interrupted_world init =
     Some (Inr (),
       init\<lparr>worker_processes := Some [], clock := 5, calls := [(''distributed'', 3000, 500)],
            started := [0, 1], terminated := [0, 1]\<rparr>)"
proof -
  have sp: "sweep_point interrupted_world Fixed_Particles FIXED_PARTICLES_TEST ''distributed''
      500 init =
    (Inl KeyboardInterrupt,
     init\<lparr>worker_processes := Some [0, 1], clock := 3, calls := [(''distributed'', 3000, 500)],
          started := [0, 1]\<rparr>)"
    by (simp add: sweep_point_def FIXED_PARTICLES_TEST_def numeral_eq_Suc run_simulation_def
        start_worker_def interrupted_world_def world_def init_def workers_def)
  have sw: "sweep_while interrupted_world Fixed_Particles FIXED_PARTICLES_TEST ''distributed''
      (starting FIXED_PARTICLES_TEST) init =
    Some (Inl KeyboardInterrupt,
     init\<lparr>worker_processes := Some [0, 1], clock := 3, calls := [(''distributed'', 3000, 500)],
          started := [0, 1]\<rparr>)"
  proof -
    have st: "starting FIXED_PARTICLES_TEST = 500" by (simp add: FIXED_PARTICLES_TEST_def)
    have "(500::int) \<le> maximum FIXED_PARTICLES_TEST" by (simp add: FIXED_PARTICLES_TEST_def)
    from sweep_while_raise[OF this sp] show ?thesis unfolding st .
  qed
  have fp: "fixed_particles_test interrupted_world init =
    Some (Inl KeyboardInterrupt,
     init\<lparr>worker_processes := Some [0, 1], clock := 3, calls := [(''distributed'', 3000, 500)],
          started := [0, 1]\<rparr>)"
    by (simp add: fixed_particles_test_def sw)
  have su: "setup_environment interrupted_world init = (Inr (), init)"
    by (simp add: setup_environment_def interrupted_world_def world_def)
  have at: "all_tests interrupted_world init =
    Some (Inl KeyboardInterrupt,
     init\<lparr>worker_processes := Some [0, 1], clock := 3, calls := [(''distributed'', 3000, 500)],
          started := [0, 1]\<rparr>)"
    by (simp add: all_tests_def su fp)
  have cl: "cleanup interrupted_world
     (init\<lparr>worker_processes := Some [0, 1], clock := 3, calls := [(''distributed'', 3000, 500)],
          started := [0, 1]\<rparr>) =
     init\<lparr>worker_processes := Some [], clock := 5, calls := [(''distributed'', 3000, 500)],
            started := [0, 1], terminated := [0, 1]\<rparr>"
    by (simp add: cleanup_def stop_worker_def interrupted_world_def world_def init_def)
  show ?thesis
    unfolding run_all_tests_def at by (simp add: cl del: One_nat_def)
qed

theorem no_handle_leaks_witness:
  "tracked init \<and> worker_processes init = None \<and> stop_worker interrupted_world init = init \<and>
   run_all_tests interrupted_world init =
     Some (Inr (),
       init\<lparr>worker_processes := Some [], clock := 5, calls := [(''distributed'', 3000, 500)],
            started := [0, 1], terminated := [0, 1]\<rparr>) \<and>
   (\<exists>r s'. run_all_tests interrupted_world init = Some (r, s') \<and>
            set (started s') \<subseteq> set (terminated s') \<and> workers s' = [])"
proof -
  have t: "tracked init" by (simp add: tracked_def init_def)
  have n: "worker_processes init = None" by (simp add: init_def)
  from no_handle_leaks [of init interrupted_world] t n interrupted_run
  show ?thesis by blast
qed

end
